theory Spec2Isabelle
  imports Main "HOL-Library.Sublist"
begin

section \<open>Python string primitives\<close>

text \<open>
  A Python \<open>str\<close> is modelled as a \<open>string\<close>, a list of 8-bit characters; a character
  stands for the Unicode code point of the same number (U+0000 to U+00FF). The
  operations below are the ones \<open>llm_sql.py\<close> and \<open>app.py\<close> call on strings, each with
  the behaviour Python has on these code points. Texts with code points beyond U+00FF
  are outside the model. \<open>apos\<close> is the text of one apostrophe, written apart where a
  literal would end with it.
\<close>

abbreviation (input) apos :: string where
  "apos \<equiv> [CHR 0x27]"

text \<open>\<open>str.lower\<close>: the letters A to Z and the upper-case letters of U+00C0 to U+00DE
  (all but the multiplication sign U+00D7) move up by 32.\<close>

definition is_upper_char :: "char \<Rightarrow> bool" where
  "is_upper_char c =
     (let n = (of_char c :: nat)
      in (65 \<le> n \<and> n \<le> 90) \<or> (192 \<le> n \<and> n \<le> 222 \<and> n \<noteq> 215))"

definition lower_char :: "char \<Rightarrow> char" where
  "lower_char c = (if is_upper_char c then char_of (of_char c + (32::nat)) else c)"

definition lower :: "string \<Rightarrow> string" where
  "lower s = map lower_char s"

text \<open>\<open>str.capitalize\<close>: the first character in upper case, the others in lower case.
  The upper-case forms of U+00B5, U+00DF and U+00FF lie beyond U+00FF; these three are
  left as they are, and no string this program capitalizes starts with one of them.\<close>

definition is_lower_char :: "char \<Rightarrow> bool" where
  "is_lower_char c =
     (let n = (of_char c :: nat)
      in (97 \<le> n \<and> n \<le> 122) \<or> (224 \<le> n \<and> n \<le> 254 \<and> n \<noteq> 247))"

definition upper_char :: "char \<Rightarrow> char" where
  "upper_char c = (if is_lower_char c then char_of (of_char c - (32::nat)) else c)"

definition capitalize :: "string \<Rightarrow> string" where
  "capitalize s = (case s of [] \<Rightarrow> [] | c # cs \<Rightarrow> upper_char c # lower cs)"

text \<open>\<open>str.strip\<close> removes the characters for which \<open>str.isspace\<close> holds from both ends.\<close>

definition is_space :: "char \<Rightarrow> bool" where
  "is_space c =
     (let n = (of_char c :: nat)
      in (9 \<le> n \<and> n \<le> 13) \<or> (28 \<le> n \<and> n \<le> 32) \<or> n = 133 \<or> n = 160)"

definition strip :: "string \<Rightarrow> string" where
  "strip s = rev (dropWhile is_space (rev (dropWhile is_space s)))"

text \<open>\<open>sub in s\<close> on strings: \<open>sub\<close> occurs in \<open>s\<close> as a contiguous run.\<close>

fun str_contains :: "string \<Rightarrow> string \<Rightarrow> bool" where
  "str_contains sub [] = (sub = [])"
| "str_contains sub (c # cs) = (prefix sub (c # cs) \<or> str_contains sub cs)"

text \<open>\<open>s.split(sep)\<close> for a separator of one character; the result is never empty.\<close>

fun split_on :: "char \<Rightarrow> string \<Rightarrow> string list" where
  "split_on sep [] = [[]]"
| "split_on sep (c # cs) =
     (if c = sep then [] # split_on sep cs
      else (case split_on sep cs of
              [] \<Rightarrow> [[c]]
            | p # ps \<Rightarrow> (c # p) # ps))"

text \<open>\<open>sep.join(parts)\<close>.\<close>

fun join :: "string \<Rightarrow> string list \<Rightarrow> string" where
  "join sep [] = []"
| "join sep [x] = x"
| "join sep (x # y # ys) = x @ sep @ join sep (y # ys)"

subsection \<open>The two regular expressions\<close>

definition is_ascii_letter :: "char \<Rightarrow> bool" where
  "is_ascii_letter c =
     (let n = (of_char c :: nat)
      in (65 \<le> n \<and> n \<le> 90) \<or> (97 \<le> n \<and> n \<le> 122))"

definition is_ascii_digit :: "char \<Rightarrow> bool" where
  "is_ascii_digit c = (let n = (of_char c :: nat) in 48 \<le> n \<and> n \<le> 57)"

text \<open>\<open>re.findall(r"[a-zA-Z]{3,}", s)\<close>: the quantifier is greedy and the matches do not
  overlap, so the matches are the maximal runs of ASCII letters that have at least three
  characters, from left to right. \<open>letter_runs cur s\<close> cuts \<open>s\<close> at every other
  character, \<open>cur\<close> being the run read so far.\<close>

fun letter_runs :: "string \<Rightarrow> string \<Rightarrow> string list" where
  "letter_runs cur [] = [cur]"
| "letter_runs cur (c # cs) =
     (if is_ascii_letter c then letter_runs (cur @ [c]) cs
      else cur # letter_runs [] cs)"

definition findall_words :: "string \<Rightarrow> string list" where
  "findall_words s = filter (\<lambda>w. 3 \<le> length w) (letter_runs [] s)"

text \<open>\<open>re.match(r"^[a-zA-Z0-9_() ]+$", p)\<close>: one or more characters of the class, up to
  the end of \<open>p\<close> or up to a line feed that ends \<open>p\<close> (Python's \<open>$\<close> also matches
  there).\<close>

definition is_column_char :: "char \<Rightarrow> bool" where
  "is_column_char c =
     (is_ascii_letter c \<or> is_ascii_digit c \<or> c = CHR ''_'' \<or> c = CHR ''(''
      \<or> c = CHR '')'' \<or> c = CHR '' '')"

definition match_column_part :: "string \<Rightarrow> bool" where
  "match_column_part p =
     (let body = (if p \<noteq> [] \<and> last p = CHR 0x0A then butlast p else p)
      in body \<noteq> [] \<and> list_all is_column_char body)"

section \<open>Keyword extraction\<close>

text \<open>
  \<open>_extract_text_keywords\<close> returns \<open>list(set(words))\<close>. Python does not fix the order in
  which a set of strings is listed (string hashing is salted per process), so the listing
  is a parameter \<open>li\<close> of the model: \<open>li words\<close> is the list Python builds from
  \<open>set(words)\<close>. What Python guarantees is \<open>set_listing\<close>: every word once, no other.
\<close>

type_synonym listing = "string list \<Rightarrow> string list"

definition set_listing :: "listing \<Rightarrow> bool" where
  "set_listing li = (\<forall>ws. distinct (li ws) \<and> set (li ws) = set ws)"

definition stop_words :: "string list" where
  "stop_words =
     [''show'', ''me'', ''all'', ''the'', ''tickets'', ''ticket'',
      ''with'', ''that'', ''are'', ''is'', ''of'', ''for'', ''in'',
      ''high'', ''medium'', ''low'',
      ''priority'', ''status'', ''open'', ''closed'',
      ''technical'', ''billing'', ''general'',
      ''today'', ''yesterday'', ''week'', ''month'', ''this'', ''last'']"

definition question_words :: "string \<Rightarrow> string list" where
  "question_words question =
     map lower (filter (\<lambda>w. lower w \<notin> set stop_words) (findall_words question))"

definition extract_text_keywords :: "listing \<Rightarrow> string \<Rightarrow> string list" where
  "extract_text_keywords li question = li (question_words question)"

section \<open>The condition builder\<close>

text \<open>\<open>_build_conditions_from_question\<close>: the rules run in the order of the source, each
  appending to \<open>conditions\<close>; an \<open>if/elif\<close> chain appends at most one fragment.\<close>

definition build_conditions_from_question :: "listing \<Rightarrow> string \<Rightarrow> string list" where
  "build_conditions_from_question li question =
     (let q = lower question;
          conditions = [];
          conditions =
            (if str_contains ''high'' q then conditions @ [''priority = 'High'' @ apos]
             else if str_contains ''medium'' q then conditions @ [''priority = 'Medium'' @ apos]
             else if str_contains ''low'' q then conditions @ [''priority = 'Low'' @ apos]
             else conditions);
          conditions =
            (if str_contains ''technical'' q \<or> str_contains ''tech'' q
             then conditions @ [''category = 'Technical'' @ apos] else conditions);
          conditions =
            (if str_contains ''billing'' q \<or> str_contains ''payment'' q
                \<or> str_contains ''refund'' q
             then conditions @ [''category = 'Billing'' @ apos] else conditions);
          conditions =
            (if str_contains ''general'' q \<or> str_contains ''account'' q
                \<or> str_contains ''profile'' q
             then conditions @ [''category = 'General'' @ apos] else conditions);
          conditions =
            (if str_contains ''open'' q
             then conditions @ [''status = 'Open'' @ apos] else conditions);
          conditions =
            (if str_contains ''closed'' q \<or> str_contains ''resolved'' q
             then conditions @ [''status = 'Closed'' @ apos] else conditions);
          conditions =
            (if str_contains ''today'' q
             then conditions @ [''DATE(created_at) = CURDATE()'']
             else if str_contains ''yesterday'' q
             then conditions @ [''DATE(created_at) = (CURDATE() - INTERVAL 1 DAY)'']
             else if str_contains ''this week'' q \<or> str_contains ''last 7 days'' q
             then conditions @ [''created_at >= (CURDATE() - INTERVAL 7 DAY)'']
             else if str_contains ''this month'' q
             then conditions @ [''created_at >= DATE_FORMAT(CURDATE(), '%Y-%m-01')'']
             else conditions);
          keywords = extract_text_keywords li question;
          conditions =
            (if keywords \<noteq> []
             then conditions @
               [''('' @ join '' OR ''
                  (map (\<lambda>kw. ''LOWER(text) LIKE '%'' @ kw @ ''%'' @ apos) keywords) @ '')'']
             else conditions)
      in conditions)"

section \<open>The column expression cleaner\<close>

definition default_columns :: string where
  "default_columns = ''id, text, category, priority, status, created_at''"

definition forbidden :: "string list" where
  "forbidden = [''from'', ''where'', ''join'', ''limit'', ''tickets'']"

definition clean_columns_expression :: "string \<Rightarrow> string" where
  "clean_columns_expression raw =
     (let expr = lower (strip raw)
      in if str_contains ''count'' expr then ''COUNT(*)''
         else
           (let parts = map strip (split_on CHR '','' expr)
            in if list_all match_column_part parts
               then (if \<not> list_ex (\<lambda>f. str_contains f expr) forbidden
                     then join '', '' parts
                     else default_columns)
               else default_columns))"

section \<open>The SQL generator\<close>

text \<open>
  \<open>generate_sql_from_question\<close> asks the FLAN-T5 model for an expression and decodes its
  answer. The model is outside this program: the decoded answer is the parameter \<open>raw\<close>,
  any string at all. \<open>li\<close> is the listing of the keyword set, as above.
\<close>

definition generate_sql_from_question :: "listing \<Rightarrow> string \<Rightarrow> string \<Rightarrow> string" where
  "generate_sql_from_question li question raw =
     (let q_lower = lower question;
          expr = clean_columns_expression raw;
          is_count = (str_contains ''how many'' q_lower \<or> str_contains ''count'' q_lower
                      \<or> str_contains ''count('' (lower expr));
          select_clause = (if is_count then ''SELECT COUNT(*) AS count''
                           else ''SELECT '' @ expr);
          conditions = build_conditions_from_question li question;
          sql = select_clause @ '' FROM tickets'';
          sql = (if conditions \<noteq> [] then sql @ '' WHERE '' @ join '' AND '' conditions
                 else sql);
          sql = (if \<not> is_count then sql @ '' LIMIT 50'' else sql)
      in sql @ '';'')"

section \<open>The explanation\<close>

definition explain_sql :: "string \<Rightarrow> string" where
  "explain_sql sql =
     (let sql_lower = lower sql;
          explanation = [];
          explanation =
            (if str_contains ''count(*)'' sql_lower
             then explanation @ [''This query counts the number of tickets'']
             else explanation @ [''This query retrieves ticket details'']);
          explanation =
            (if str_contains (''priority = 'high'' @ apos) sql_lower
             then explanation @ [''with high priority''] else explanation);
          explanation =
            (if str_contains (''priority = 'medium'' @ apos) sql_lower
             then explanation @ [''with medium priority''] else explanation);
          explanation =
            (if str_contains (''priority = 'low'' @ apos) sql_lower
             then explanation @ [''with low priority''] else explanation);
          explanation =
            (if str_contains (''category = 'technical'' @ apos) sql_lower
             then explanation @ [''related to technical issues''] else explanation);
          explanation =
            (if str_contains (''category = 'billing'' @ apos) sql_lower
             then explanation @ [''related to billing issues''] else explanation);
          explanation =
            (if str_contains (''category = 'general'' @ apos) sql_lower
             then explanation @ [''related to general issues''] else explanation);
          explanation =
            (if str_contains (''status = 'open'' @ apos) sql_lower
             then explanation @ [''that are currently open''] else explanation);
          explanation =
            (if str_contains (''status = 'closed'' @ apos) sql_lower
             then explanation @ [''that are closed''] else explanation);
          explanation =
            (if str_contains ''limit'' sql_lower
             then explanation @ [''and limits the results to 50 records'']
             else explanation)
      in capitalize (join '' '' explanation) @ ''.'')"

section \<open>The query service up to the statement check\<close>

text \<open>
  \<open>nl_query\<close> in \<open>app.py\<close>, up to the point where the SQL text is accepted: every
  \<open>HTTPException\<close> is a value. The suggestion is \<open>None\<close> when the model call raises,
  which \<open>nl_query\<close> turns into the error of its first \<open>try\<close>.
\<close>

datatype http_error = QuestionEmpty | LlmSqlError | OnlySelectAllowed

definition nl_query_sql :: "listing \<Rightarrow> string \<Rightarrow> string option \<Rightarrow> http_error + string" where
  "nl_query_sql li question suggestion =
     (if strip question = [] then Inl QuestionEmpty
      else (case suggestion of
              None \<Rightarrow> Inl LlmSqlError
            | Some raw \<Rightarrow>
                (let sql = generate_sql_from_question li question raw
                 in if \<not> prefix ''select'' (strip (lower sql)) then Inl OnlySelectAllowed
                    else Inr sql)))"

section \<open>Vocabulary of the statements\<close>

text \<open>\<open>opt_item b x\<close> is the effect of \<open>if b: xs.append(x)\<close> on the list built so far.\<close>

definition opt_item :: "bool \<Rightarrow> string \<Rightarrow> string list" where
  "opt_item b x = (if b then [x] else [])"

text \<open>The rule groups of the condition builder, each as the list of fragments it
  contributes for the lower-cased question \<open>q\<close>; \<open>build_conditions_groups\<close> below shows
  that the builder returns their concatenation.\<close>

definition priority_conditions :: "string \<Rightarrow> string list" where
  "priority_conditions q =
     (if str_contains ''high'' q then [''priority = 'High'' @ apos]
      else if str_contains ''medium'' q then [''priority = 'Medium'' @ apos]
      else if str_contains ''low'' q then [''priority = 'Low'' @ apos]
      else [])"

definition category_conditions :: "string \<Rightarrow> string list" where
  "category_conditions q =
     opt_item (str_contains ''technical'' q \<or> str_contains ''tech'' q)
       (''category = 'Technical'' @ apos) @
     opt_item (str_contains ''billing'' q \<or> str_contains ''payment'' q
               \<or> str_contains ''refund'' q)
       (''category = 'Billing'' @ apos) @
     opt_item (str_contains ''general'' q \<or> str_contains ''account'' q
               \<or> str_contains ''profile'' q)
       (''category = 'General'' @ apos)"

definition status_conditions :: "string \<Rightarrow> string list" where
  "status_conditions q =
     opt_item (str_contains ''open'' q) (''status = 'Open'' @ apos) @
     opt_item (str_contains ''closed'' q \<or> str_contains ''resolved'' q)
       (''status = 'Closed'' @ apos)"

definition date_conditions :: "string \<Rightarrow> string list" where
  "date_conditions q =
     (if str_contains ''today'' q then [''DATE(created_at) = CURDATE()'']
      else if str_contains ''yesterday'' q
      then [''DATE(created_at) = (CURDATE() - INTERVAL 1 DAY)'']
      else if str_contains ''this week'' q \<or> str_contains ''last 7 days'' q
      then [''created_at >= (CURDATE() - INTERVAL 7 DAY)'']
      else if str_contains ''this month'' q
      then [''created_at >= DATE_FORMAT(CURDATE(), '%Y-%m-01')'']
      else [])"

definition like_term :: "string \<Rightarrow> string" where
  "like_term kw = ''LOWER(text) LIKE '%'' @ kw @ ''%'' @ apos"

definition text_conditions :: "string list \<Rightarrow> string list" where
  "text_conditions keywords =
     opt_item (keywords \<noteq> []) (''('' @ join '' OR '' (map like_term keywords) @ '')'')"

text \<open>The fragments of the three category rules, and the phrase with which
  \<open>explain_sql\<close> answers each of them.\<close>

definition category_fragments :: "string list" where
  "category_fragments =
     [''category = 'Technical'' @ apos, ''category = 'Billing'' @ apos,
      ''category = 'General'' @ apos]"

definition category_phrases :: "string list" where
  "category_phrases =
     [''related to technical issues'', ''related to billing issues'',
      ''related to general issues'']"

definition category_phrase :: "string \<Rightarrow> string" where
  "category_phrase c =
     (if c = ''category = 'Technical'' @ apos then ''related to technical issues''
      else if c = ''category = 'Billing'' @ apos then ''related to billing issues''
      else ''related to general issues'')"












text \<open>\<open>no_MI s\<close>: in \<open>s\<close> no \<open>M\<close> is followed by \<open>I\<close>, and \<open>s\<close> does not end with
  \<open>M\<close>. Texts with this property can be concatenated, and none contains \<open>LIMIT\<close>.\<close>

fun no_MI :: "string \<Rightarrow> bool" where
  "no_MI [] = True"
| "no_MI [c] = (c \<noteq> CHR ''M'')"
| "no_MI (c # d # cs) = (\<not> (c = CHR ''M'' \<and> d = CHR ''I'') \<and> no_MI (d # cs))"

section \<open>Facts about the string primitives\<close>

lemmas char_eval = is_upper_char_def is_lower_char_def lower_char_def upper_char_def
  is_space_def is_ascii_letter_def is_ascii_digit_def is_column_char_def
  char_of_def bit_Suc_0_iff Let_def

lemma str_contains_sublist: "str_contains sub s = sublist sub s"
  by (induction s) (simp_all add: sublist_Cons_right)

lemma lower_append: "lower (a @ b) = lower a @ lower b"
  by (simp add: lower_def)

lemma lower_Cons: "lower (c # cs) = lower_char c # lower cs"
  by (simp add: lower_def)

lemma lower_Nil: "lower [] = []"
  by (simp add: lower_def)

lemma strip_id:
  assumes "s \<noteq> []" and "\<not> is_space (hd s)" and "\<not> is_space (last s)"
  shows "strip s = s"
proof -
  from assms have front: "dropWhile is_space s = s"
    by (cases s) simp_all
  from assms have "dropWhile is_space (rev s) = rev s"
    by (cases "rev s") (simp_all add: hd_rev)
  with front show ?thesis
    by (simp add: strip_def)
qed

lemma if_snoc: "(if b then e @ [x] else e) = e @ (if b then [x] else [])"
  by simp

lemma if_single: "(if b then [x] else [y]) = [if b then x else y]"
  by simp

lemma join_Cons: "join sep (x # xs) = x @ (if xs = [] then [] else sep @ join sep xs)"
  by (cases xs) simp_all

lemma prefix_join_Cons: "prefix x (join sep (x # xs))"
  by (simp add: join_Cons)

lemma capitalize_prefix:
  "prefix (c # p) s \<Longrightarrow> prefix (upper_char c # lower p) (capitalize s)"
  by (auto simp add: capitalize_def prefix_def lower_append)

section \<open>The explanation is a sentence\<close>

text \<open>The phrases of \<open>explain_sql\<close>, in the order in which the source appends them.\<close>

lemma explain_sql_phrases:
  "explain_sql sql =
     capitalize (join '' ''
       ((if str_contains ''count(*)'' (lower sql)
         then ''This query counts the number of tickets''
         else ''This query retrieves ticket details'') #
        opt_item (str_contains (''priority = 'high'' @ apos) (lower sql))
          ''with high priority'' @
        opt_item (str_contains (''priority = 'medium'' @ apos) (lower sql))
          ''with medium priority'' @
        opt_item (str_contains (''priority = 'low'' @ apos) (lower sql))
          ''with low priority'' @
        opt_item (str_contains (''category = 'technical'' @ apos) (lower sql))
          ''related to technical issues'' @
        opt_item (str_contains (''category = 'billing'' @ apos) (lower sql))
          ''related to billing issues'' @
        opt_item (str_contains (''category = 'general'' @ apos) (lower sql))
          ''related to general issues'' @
        opt_item (str_contains (''status = 'open'' @ apos) (lower sql))
          ''that are currently open'' @
        opt_item (str_contains (''status = 'closed'' @ apos) (lower sql))
          ''that are closed'' @
        opt_item (str_contains ''limit'' (lower sql))
          ''and limits the results to 50 records''))
     @ ''.''"
  by (simp only: explain_sql_def Let_def if_snoc if_single opt_item_def
        append_Nil append_Cons append_assoc)

lemma explain_sql_intent:
  "\<exists>rest. explain_sql sql =
     capitalize (join '' '' ((if str_contains ''count(*)'' (lower sql)
         then ''This query counts the number of tickets''
         else ''This query retrieves ticket details'') # rest)) @ ''.''"
  using explain_sql_phrases by blast

text \<open>
  Claim C10. Whatever string \<open>explain_sql\<close> is given, assembled by this program or not,
  its result is not empty, begins with \<open>This query\<close> (one of the two intent phrases is
  appended first, and \<open>capitalize\<close> leaves it as it is) and ends with a period.
\<close>

theorem explain_sql_sentence:
  "explain_sql sql \<noteq> [] \<and> prefix ''This query'' (explain_sql sql)
     \<and> suffix ''.'' (explain_sql sql)"
proof -
  define intent where "intent = (if str_contains ''count(*)'' (lower sql)
         then ''This query counts the number of tickets''
         else ''This query retrieves ticket details'')"
  obtain rest where e: "explain_sql sql = capitalize (join '' '' (intent # rest)) @ ''.''"
    using explain_sql_intent unfolding intent_def by blast
  have "prefix ''This query'' intent"
    by (simp add: intent_def)
  then have "prefix ''This query'' (join '' '' (intent # rest))"
    using prefix_join_Cons prefix_order.trans by blast
  from capitalize_prefix[OF this]
  have "prefix ''This query'' (capitalize (join '' '' (intent # rest)))"
    by (simp add: lower_def char_eval)
  then have "prefix ''This query'' (explain_sql sql)"
    unfolding e by (rule prefix_prefix)
  moreover have "suffix ''.'' (explain_sql sql)"
    unfolding e by (rule suffix_appendI) simp
  moreover have "explain_sql sql \<noteq> []"
    unfolding e by simp
  ultimately show ?thesis
    by simp
qed

section \<open>The generated statement is a SELECT\<close>

lemma generate_sql_prefix: "prefix ''SELECT '' (generate_sql_from_question li question raw)"
  by (simp add: generate_sql_from_question_def Let_def)

lemma generate_sql_last:
  "generate_sql_from_question li question raw \<noteq> []
     \<and> last (generate_sql_from_question li question raw) = CHR '';''"
  by (simp add: generate_sql_from_question_def Let_def)

lemma strip_lower_generate_sql:
  "strip (lower (generate_sql_from_question li question raw))
     = lower (generate_sql_from_question li question raw)"
proof (rule strip_id)
  let ?sql = "generate_sql_from_question li question raw"
  obtain rest where r: "?sql = ''SELECT '' @ rest"
    using generate_sql_prefix[of li question raw] unfolding prefix_def by blast
  show "lower ?sql \<noteq> []"
    using generate_sql_last by (simp add: lower_def)
  show "\<not> is_space (hd (lower ?sql))"
    unfolding r by (simp add: lower_def char_eval)
  have "last (lower ?sql) = lower_char (CHR '';'')"
    using generate_sql_last[of li question raw] by (simp add: lower_def last_map)
  then show "\<not> is_space (last (lower ?sql))"
    by (simp add: char_eval)
qed

text \<open>
  Claim C2. For every question and every answer of the suggester, the generated SQL,
  lower-cased and stripped as \<open>nl_query\<close> does, starts with \<open>select\<close>; so \<open>nl_query\<close>
  never raises "Only SELECT queries are allowed" on SQL that the generator produced.
\<close>

theorem generated_sql_is_select:
  "prefix ''select'' (strip (lower (generate_sql_from_question li question raw)))
     \<and> nl_query_sql li question (Some raw) \<noteq> Inl OnlySelectAllowed"
proof -
  let ?sql = "generate_sql_from_question li question raw"
  have "prefix (lower ''SELECT '') (lower ?sql)"
    unfolding lower_def by (rule map_mono_prefix) (rule generate_sql_prefix)
  then have "prefix ''select '' (lower ?sql)"
    by (simp add: lower_def char_eval)
  then have "prefix ''select'' (lower ?sql)"
    by (auto simp: prefix_def)
  then have sel: "prefix ''select'' (strip (lower ?sql))"
    by (simp only: strip_lower_generate_sql)
  then have "nl_query_sql li question (Some raw) \<noteq> Inl OnlySelectAllowed"
    by (simp add: nl_query_sql_def Let_def)
  with sel show ?thesis
    by simp
qed

section \<open>Listings of a set\<close>

lemma set_listing_remdups: "set_listing remdups"
  by (simp add: set_listing_def)

lemma listing_two:
  assumes "distinct ks" and "set ks = {a, b}" and "a \<noteq> b"
  shows "ks = [a, b] \<or> ks = [b, a]"
proof -
  have "length ks = 2"
    using assms distinct_card[of ks] by simp
  then obtain x y where "ks = [x, y]"
    by (cases ks; cases "tl ks") auto
  with assms show ?thesis
    by (auto simp: doubleton_eq_iff)
qed

lemma listing_one:
  assumes "distinct ks" and "set ks = {a}"
  shows "ks = [a]"
proof -
  have "length ks = 1"
    using assms distinct_card[of ks] by simp
  then obtain x where "ks = [x]"
    by (cases ks) auto
  with assms show ?thesis
    by auto
qed

section \<open>The two worked examples\<close>

lemma words_how_many: "question_words ''how many tickets are open'' = [''how'', ''many'']"
  by code_simp

lemma words_from:
  "question_words ''show me tickets with high priority from today'' = [''from'']"
  by code_simp

lemma lower_how_many: "lower ''how many tickets are open'' = ''how many tickets are open''"
  by code_simp

lemma conditions_how_many:
  "build_conditions_from_question li ''how many tickets are open'' =
     (''status = 'Open'' @ apos) #
     opt_item (li [''how'', ''many''] \<noteq> [])
       (''('' @ join '' OR ''
          (map (\<lambda>kw. ''LOWER(text) LIKE '%'' @ kw @ ''%'' @ apos) (li [''how'', ''many''])) @ '')'')"
  by (simp add: build_conditions_from_question_def extract_text_keywords_def Let_def
        words_how_many lower_how_many opt_item_def)


text \<open>
  Claim C4. The claim gives \<open>SELECT COUNT(*) AS count FROM tickets WHERE status = 'Open';\<close>
  for the question \<open>how many tickets are open\<close>. The code returns something else: the
  words \<open>how\<close> and \<open>many\<close> are not stop words, so they become search terms and a
  third fragment is appended, its two terms in the order in which the set is listed.
  For every listing and every answer of the suggester the result is one of the two
  strings below, and never the string of the claim.
\<close>

theorem how_many_tickets_are_open_sql:
  assumes "set_listing li"
  shows "(generate_sql_from_question li ''how many tickets are open'' raw =
            ''SELECT COUNT(*) AS count FROM tickets WHERE status = 'Open' AND (LOWER(text) LIKE '%how%' OR LOWER(text) LIKE '%many%');''
          \<or> generate_sql_from_question li ''how many tickets are open'' raw =
            ''SELECT COUNT(*) AS count FROM tickets WHERE status = 'Open' AND (LOWER(text) LIKE '%many%' OR LOWER(text) LIKE '%how%');'')
       \<and> generate_sql_from_question li ''how many tickets are open'' raw \<noteq>
            ''SELECT COUNT(*) AS count FROM tickets WHERE status = 'Open';''"
proof -
  have "distinct (li [''how'', ''many''])" and "set (li [''how'', ''many'']) = {''how'', ''many''}"
    using assms by (simp_all add: set_listing_def)
  then have "li [''how'', ''many''] = [''how'', ''many'']
      \<or> li [''how'', ''many''] = [''many'', ''how'']"
    by (rule listing_two) simp
  then show ?thesis
  proof
    assume "li [''how'', ''many''] = [''how'', ''many'']"
    then show ?thesis
      by (simp add: generate_sql_from_question_def Let_def conditions_how_many
            lower_how_many opt_item_def)
  next
    assume "li [''how'', ''many''] = [''many'', ''how'']"
    then show ?thesis
      by (simp add: generate_sql_from_question_def Let_def conditions_how_many
            lower_how_many opt_item_def)
  qed
qed

theorem how_many_tickets_are_open_sql_witness:
  "set_listing remdups
   \<and> generate_sql_from_question remdups ''how many tickets are open'' ''id, status'' \<noteq>
            ''SELECT COUNT(*) AS count FROM tickets WHERE status = 'Open';''"
  using how_many_tickets_are_open_sql[OF set_listing_remdups, of "''id, status''"]
  by (simp add: set_listing_remdups)

lemma lower_show_high:
  "lower ''show me tickets with high priority from today''
     = ''show me tickets with high priority from today''"
  by code_simp

lemma conditions_show_high:
  "build_conditions_from_question li ''show me tickets with high priority from today'' =
     (''priority = 'High'' @ apos) # ''DATE(created_at) = CURDATE()'' #
     opt_item (li [''from''] \<noteq> [])
       (''('' @ join '' OR ''
          (map (\<lambda>kw. ''LOWER(text) LIKE '%'' @ kw @ ''%'' @ apos) (li [''from''])) @ '')'')"
  by (simp add: build_conditions_from_question_def extract_text_keywords_def Let_def
        words_from lower_show_high opt_item_def)

lemma lower_default_columns: "lower default_columns = default_columns"
  by code_simp

text \<open>
  Claim C5. The claim gives, for \<open>show me tickets with high priority from today\<close> and a
  suggestion that the cleaner replaces by the default columns, a statement with the two
  conditions on priority and date. The code returns a third condition: \<open>from\<close> is not
  a stop word and becomes a search term.
\<close>

theorem show_high_priority_today_sql:
  assumes "set_listing li" and "clean_columns_expression raw = default_columns"
  shows "generate_sql_from_question li ''show me tickets with high priority from today'' raw =
           ''SELECT id, text, category, priority, status, created_at FROM tickets WHERE priority = 'High' AND DATE(created_at) = CURDATE() AND (LOWER(text) LIKE '%from%') LIMIT 50;''
       \<and> generate_sql_from_question li ''show me tickets with high priority from today'' raw \<noteq>
           ''SELECT id, text, category, priority, status, created_at FROM tickets WHERE priority = 'High' AND DATE(created_at) = CURDATE() LIMIT 50;''"
proof -
  have "distinct (li [''from''])" and "set (li [''from'']) = {''from''}"
    using assms by (simp_all add: set_listing_def)
  then have "li [''from''] = [''from'']"
    by (rule listing_one)
  then show ?thesis
    using assms(2)
    by (simp add: generate_sql_from_question_def Let_def conditions_show_high
          lower_show_high lower_default_columns opt_item_def)
      (simp add: default_columns_def)
qed

lemma clean_drop_table: "clean_columns_expression ''DROP TABLE tickets'' = default_columns"
  by code_simp

theorem show_high_priority_today_sql_witness:
  "set_listing remdups \<and> clean_columns_expression ''DROP TABLE tickets'' = default_columns
   \<and> generate_sql_from_question remdups ''show me tickets with high priority from today''
        ''DROP TABLE tickets'' =
           ''SELECT id, text, category, priority, status, created_at FROM tickets WHERE priority = 'High' AND DATE(created_at) = CURDATE() AND (LOWER(text) LIKE '%from%') LIMIT 50;''"
  using show_high_priority_today_sql[OF set_listing_remdups clean_drop_table]
  by (simp add: set_listing_remdups clean_drop_table)

section \<open>The LIMIT clause of a statement that does not count\<close>

text \<open>
  Claim C6. When the lower-cased question contains neither \<open>how many\<close> nor \<open>count\<close> and
  the cleaned expression, lower-cased, does not contain \<open>count(\<close>, the generated SQL
  ends with \<open>LIMIT 50;\<close>.
\<close>

theorem non_count_sql_ends_with_limit:
  assumes "\<not> str_contains ''how many'' (lower question)"
    and "\<not> str_contains ''count'' (lower question)"
    and "\<not> str_contains ''count('' (lower (clean_columns_expression raw))"
  shows "suffix ''LIMIT 50;'' (generate_sql_from_question li question raw)"
proof -
  have "\<exists>pre. generate_sql_from_question li question raw = pre @ ''LIMIT 50;''"
    using assms by (simp add: generate_sql_from_question_def Let_def)
  then show ?thesis
    by (auto simp: suffix_def)
qed

theorem non_count_sql_ends_with_limit_witness:
  "\<not> str_contains ''how many'' (lower ''show open tickets'')
   \<and> \<not> str_contains ''count'' (lower ''show open tickets'')
   \<and> \<not> str_contains ''count('' (lower (clean_columns_expression ''id, status''))
   \<and> suffix ''LIMIT 50;'' (generate_sql_from_question remdups ''show open tickets'' ''id, status'')"
proof -
  have a: "\<not> str_contains ''how many'' (lower ''show open tickets'')"
    by code_simp
  have b: "\<not> str_contains ''count'' (lower ''show open tickets'')"
    by code_simp
  have c: "\<not> str_contains ''count('' (lower (clean_columns_expression ''id, status''))"
    by code_simp
  from non_count_sql_ends_with_limit[OF a b c, of remdups] a b c show ?thesis
    by simp
qed

section \<open>The cleaner and the forbidden words\<close>

text \<open>\<open>strip\<close> removes a run of white space at each end, and nothing else.\<close>

lemma strip_decomp:
  "\<exists>a b. s = a @ strip s @ b \<and> list_all is_space a \<and> list_all is_space b"
proof -
  define d where "d = dropWhile is_space s"
  define a where "a = takeWhile is_space s"
  define b where "b = rev (takeWhile is_space (rev d))"
  have "strip s @ b = rev (takeWhile is_space (rev d) @ dropWhile is_space (rev d))"
    by (simp only: strip_def d_def b_def rev_append)
  also have "\<dots> = rev (rev d)"
    by (simp only: takeWhile_dropWhile_id)
  finally have "strip s @ b = d"
    by simp
  then have "a @ strip s @ b = a @ d"
    by (rule arg_cong)
  also have "a @ d = s"
    by (simp add: a_def d_def)
  finally have "s = a @ strip s @ b"
    by (rule sym)
  moreover have "list_all is_space a"
    by (auto simp: a_def list_all_iff dest: set_takeWhileD)
  moreover have "list_all is_space b"
    by (auto simp: b_def list_all_iff dest: set_takeWhileD)
  ultimately show ?thesis
    by (intro exI conjI)
qed

lemma lower_char_space: "is_space c \<Longrightarrow> lower_char c = c"
  by (auto simp: lower_char_def is_space_def is_upper_char_def Let_def)

text \<open>An occurrence of a word cannot start in a run of characters foreign to the word.\<close>

lemma sublist_skip_front:
  assumes "w \<noteq> []" and "\<forall>c \<in> set a. c \<notin> set w" and "sublist w (a @ t)"
  shows "sublist w t"
  using assms
proof (induction a)
  case Nil
  then show ?case by simp
next
  case (Cons x a)
  from Cons.prems(3) have "prefix w (x # a @ t) \<or> sublist w (a @ t)"
    by (simp add: sublist_Cons_right)
  moreover have "\<not> prefix w (x # a @ t)"
    using Cons.prems(1,2) by (cases w) auto
  ultimately show ?case
    using Cons by simp
qed

lemma sublist_skip_back:
  assumes "w \<noteq> []" and "\<forall>c \<in> set b. c \<notin> set w" and "sublist w (t @ b)"
  shows "sublist w t"
proof -
  from assms(3) have "sublist (rev w) (rev (t @ b))"
    by (simp only: sublist_rev)
  then have "sublist (rev w) (rev b @ rev t)"
    by simp
  moreover have "rev w \<noteq> []" and "\<forall>c \<in> set (rev b). c \<notin> set (rev w)"
    using assms(1,2) by simp_all
  ultimately have "sublist (rev w) (rev t)"
    using sublist_skip_front by blast
  then show ?thesis
    by simp
qed

lemma sublist_lower_strip:
  assumes "w \<noteq> []" and "\<forall>c \<in> set w. \<not> is_space c"
  shows "sublist w (lower (strip s)) = sublist w (lower s)"
proof
  obtain a b where s: "s = a @ strip s @ b" and a: "list_all is_space a" and b: "list_all is_space b"
    using strip_decomp by blast
  have "lower s = lower (a @ strip s @ b)"
    using s by (rule arg_cong)
  then have l: "lower s = lower a @ lower (strip s) @ lower b"
    by (simp only: lower_append)
  have la: "\<forall>c \<in> set (lower a). c \<notin> set w"
    using a assms(2) by (auto simp: lower_def list_all_iff lower_char_space)
  have lb: "\<forall>c \<in> set (lower b). c \<notin> set w"
    using b assms(2) by (auto simp: lower_def list_all_iff lower_char_space)
  show "sublist w (lower s)" if "sublist w (lower (strip s))"
  proof -
    have "sublist (lower (strip s)) (lower s)"
      by (subst l) (rule sublist_appendI)
    with that show ?thesis
      by (rule sublist_order.order_trans)
  qed
  show "sublist w (lower (strip s))" if "sublist w (lower s)"
  proof -
    from that have "sublist w (lower a @ lower (strip s) @ lower b)"
      by (simp only: l[symmetric])
    then have "sublist w (lower (strip s) @ lower b)"
      by (rule sublist_skip_front[OF assms(1) la])
    then show ?thesis
      by (rule sublist_skip_back[OF assms(1) lb])
  qed
qed

lemma forbidden_no_space: "w \<in> set forbidden \<Longrightarrow> w \<noteq> [] \<and> (\<forall>c \<in> set w. \<not> is_space c)"
  by (auto simp: forbidden_def is_space_def)

lemma count_no_space: "\<forall>c \<in> set ''count''. \<not> is_space c"
  by (simp add: is_space_def)

text \<open>
  Claim C1, as amended. The claim as written says that every expression containing one
  of \<open>from\<close>, \<open>where\<close>, \<open>join\<close>, \<open>limit\<close>, \<open>tickets\<close> (in any case) is
  replaced by the default column list. The source tests for \<open>count\<close> first and returns
  \<open>COUNT(*)\<close> before it looks at the forbidden words. What holds: an expression that
  contains a forbidden word, in any case, and does not contain \<open>count\<close>, in any case,
  is replaced by the default column list.
\<close>

theorem forbidden_without_count_falls_back:
  assumes "list_ex (\<lambda>f. str_contains f (lower expr)) forbidden"
    and "\<not> str_contains ''count'' (lower expr)"
  shows "clean_columns_expression expr = default_columns"
proof -
  from assms(1) obtain w where w: "w \<in> set forbidden" and c: "sublist w (lower expr)"
    by (auto simp: list_ex_iff str_contains_sublist)
  from w have "w \<noteq> []" and "\<forall>c \<in> set w. \<not> is_space c"
    using forbidden_no_space by blast+
  from sublist_lower_strip[OF this] c have "sublist w (lower (strip expr))"
    by simp
  with w have hit: "list_ex (\<lambda>f. str_contains f (lower (strip expr))) forbidden"
    by (auto simp: list_ex_iff str_contains_sublist)
  have "sublist ''count'' (lower (strip expr)) = sublist ''count'' (lower expr)"
    by (rule sublist_lower_strip) (simp_all add: is_space_def)
  with assms(2) have nc: "\<not> str_contains ''count'' (lower (strip expr))"
    unfolding str_contains_sublist by blast
  show ?thesis
    unfolding clean_columns_expression_def Let_def
    by (simp only: nc hit if_False if_True not_True_eq_False if_cancel)
qed


theorem forbidden_without_count_falls_back_witness:
  "list_ex (\<lambda>f. str_contains f (lower ''id FROM tickets'')) forbidden
   \<and> \<not> str_contains ''count'' (lower ''id FROM tickets'')
   \<and> clean_columns_expression ''id FROM tickets'' = default_columns"
proof -
  have a: "list_ex (\<lambda>f. str_contains f (lower ''id FROM tickets'')) forbidden"
    by code_simp
  have b: "\<not> str_contains ''count'' (lower ''id FROM tickets'')"
    by code_simp
  from a b forbidden_without_count_falls_back[OF a b] show ?thesis
    by (intro conjI)
qed

text \<open>
  The claim C1 as written fails on \<open>COUNT(*) FROM tickets\<close>: it contains \<open>from\<close>
  (and \<open>tickets\<close>), and the cleaner returns \<open>COUNT(*)\<close>, not the default list.
\<close>

theorem count_beats_forbidden_counterexample:
  "str_contains ''from'' (lower ''COUNT(*) FROM tickets'')
   \<and> clean_columns_expression ''COUNT(*) FROM tickets'' = ''COUNT(*)''
   \<and> clean_columns_expression ''COUNT(*) FROM tickets'' \<noteq> default_columns"
  by code_simp

section \<open>The condition builder as a concatenation of rule groups\<close>

lemma if_snoc3: "(if b then e @ [x] else e @ r) = e @ (if b then [x] else r)"
  by simp

lemma like_term_fun: "like_term = (\<lambda>kw. ''LOWER(text) LIKE '%'' @ kw @ ''%'' @ apos)"
  by (simp add: fun_eq_iff like_term_def)

lemma build_conditions_groups:
  "build_conditions_from_question li question =
     priority_conditions (lower question) @ category_conditions (lower question) @
     status_conditions (lower question) @ date_conditions (lower question) @
     text_conditions (extract_text_keywords li question)"
  by (simp only: build_conditions_from_question_def Let_def if_snoc if_snoc3
        priority_conditions_def category_conditions_def status_conditions_def
        date_conditions_def text_conditions_def like_term_fun opt_item_def
        append_Nil append_Nil2 append_assoc)

section \<open>A count statement has no LIMIT clause\<close>

lemma no_MI_tl: "no_MI (c # s) \<Longrightarrow> no_MI s"
  by (cases s) simp_all

lemma no_MI_suffix: "no_MI (a @ b) \<Longrightarrow> no_MI b"
  by (induction a) (auto dest: no_MI_tl)

lemma no_MI_append: "no_MI a \<Longrightarrow> no_MI b \<Longrightarrow> no_MI (a @ b)"
proof (induction a rule: no_MI.induct)
  case 1
  then show ?case by simp
next
  case (2 c)
  then show ?case by (cases b) simp_all
next
  case (3 c d cs)
  then show ?case by simp
qed

lemma no_MI_without_M: "CHR ''M'' \<notin> set s \<Longrightarrow> no_MI s"
  by (induction s rule: no_MI.induct) auto

lemma no_MI_join: "no_MI sep \<Longrightarrow> list_all no_MI xs \<Longrightarrow> no_MI (join sep xs)"
  by (induction sep xs rule: join.induct) (simp_all add: no_MI_append)

lemma no_MI_excludes_LIMIT: "no_MI s \<Longrightarrow> \<not> sublist ''LIMIT'' s"
proof
  assume s: "no_MI s" and "sublist ''LIMIT'' s"
  then obtain ps ss where "s = ps @ ''LIMIT'' @ ss"
    by (auto simp: sublist_def)
  with s have "no_MI (''LIMIT'' @ ss)"
    using no_MI_suffix by blast
  then show False
    by simp
qed

lemma lower_char_code_point:
  "(of_char (lower_char c) :: nat) = (if is_upper_char c then of_char c + 32 else of_char c)"
  by (auto simp add: lower_char_def is_upper_char_def Let_def)

lemma lower_char_not_M: "lower_char c \<noteq> CHR ''M''"
proof
  assume "lower_char c = CHR ''M''"
  then have "(of_char (lower_char c) :: nat) = of_char (CHR ''M'')"
    by simp
  then show False
    by (simp add: lower_char_code_point is_upper_char_def Let_def split: if_splits)
qed

lemma lower_without_M: "CHR ''M'' \<notin> set (lower s)"
  by (induction s) (simp_all add: lower_def lower_char_not_M[THEN not_sym])

lemma keywords_without_M:
  assumes "set_listing li" and "kw \<in> set (extract_text_keywords li question)"
  shows "CHR ''M'' \<notin> set kw"
proof -
  from assms have "kw \<in> set (question_words question)"
    by (simp add: set_listing_def extract_text_keywords_def)
  then obtain w where "kw = lower w"
    by (auto simp: question_words_def)
  then show ?thesis
    by (simp add: lower_without_M)
qed

lemma no_MI_like_term: "CHR ''M'' \<notin> set kw \<Longrightarrow> no_MI (like_term kw)"
  unfolding like_term_def
  by (intro no_MI_append no_MI_without_M) simp_all

lemma no_MI_text_conditions:
  assumes "\<forall>kw \<in> set keywords. CHR ''M'' \<notin> set kw"
  shows "list_all no_MI (text_conditions keywords)"
proof -
  have "list_all no_MI (map like_term keywords)"
    using assms by (simp add: list_all_iff no_MI_like_term)
  then have "no_MI (join '' OR '' (map like_term keywords))"
    by (intro no_MI_join) simp_all
  then have "no_MI (''('' @ join '' OR '' (map like_term keywords) @ '')'')"
    by (intro no_MI_append) simp_all
  then show ?thesis
    by (simp add: text_conditions_def opt_item_def)
qed

lemma no_MI_rule_conditions:
  "list_all no_MI (priority_conditions q)" "list_all no_MI (category_conditions q)"
  "list_all no_MI (status_conditions q)" "list_all no_MI (date_conditions q)"
  by (simp_all add: priority_conditions_def category_conditions_def status_conditions_def
        date_conditions_def opt_item_def)

lemma no_MI_conditions:
  assumes "set_listing li"
  shows "list_all no_MI (build_conditions_from_question li question)"
  using assms no_MI_rule_conditions[of "lower question"]
    no_MI_text_conditions[of "extract_text_keywords li question"]
    keywords_without_M[of li _ question]
  by (simp add: build_conditions_groups)

lemma generate_sql_how_many:
  assumes "str_contains ''how many'' (lower question)"
  shows "generate_sql_from_question li question raw =
     ''SELECT COUNT(*) AS count FROM tickets'' @
     (if build_conditions_from_question li question = [] then []
      else '' WHERE '' @ join '' AND '' (build_conditions_from_question li question)) @ '';''"
  using assms by (simp add: generate_sql_from_question_def Let_def)

text \<open>
  Claim C3. When the lower-cased question contains \<open>how many\<close>, then for every answer
  of the suggester the generated SQL contains \<open>COUNT(*) AS count\<close> and contains no
  \<open>LIMIT\<close>, hence no LIMIT clause: the upper-case text after the select clause comes
  from the fixed fragments, and the search terms are in lower case. (A search term may
  be the lower-case word \<open>limit\<close>, inside the quotes of a LIKE pattern.)
\<close>

theorem how_many_sql_counts_without_limit:
  assumes "set_listing li" and "str_contains ''how many'' (lower question)"
  shows "str_contains ''COUNT(*) AS count'' (generate_sql_from_question li question raw)
     \<and> \<not> str_contains ''LIMIT'' (generate_sql_from_question li question raw)"
proof -
  let ?conds = "build_conditions_from_question li question"
  let ?tail = "(if ?conds = [] then [] else '' WHERE '' @ join '' AND '' ?conds) @ '';''"
  have sql: "generate_sql_from_question li question raw =
      ''SELECT COUNT(*) AS count FROM tickets'' @ ?tail"
    using assms(2) by (rule generate_sql_how_many)
  have "no_MI (join '' AND '' ?conds)"
    using assms(1) by (intro no_MI_join no_MI_conditions) simp_all
  then have "no_MI ('' WHERE '' @ join '' AND '' ?conds)"
    by (rule no_MI_append[rotated]) simp
  then have "no_MI (if ?conds = [] then [] else '' WHERE '' @ join '' AND '' ?conds)"
    by simp
  then have "no_MI ?tail"
    by (rule no_MI_append) simp
  then have "no_MI (''SELECT COUNT(*) AS count FROM tickets'' @ ?tail)"
    by (rule no_MI_append[rotated]) simp
  then have "\<not> sublist ''LIMIT'' (generate_sql_from_question li question raw)"
    unfolding sql by (rule no_MI_excludes_LIMIT)
  moreover have "sublist ''COUNT(*) AS count''
      (''SELECT '' @ ''COUNT(*) AS count'' @ ('' FROM tickets'' @ ?tail))"
    by (rule sublist_appendI)
  then have "sublist ''COUNT(*) AS count'' (generate_sql_from_question li question raw)"
    unfolding sql by simp
  ultimately show ?thesis
    unfolding str_contains_sublist by blast
qed

theorem how_many_sql_counts_without_limit_witness:
  "set_listing remdups \<and> str_contains ''how many'' (lower ''How many billing tickets?'')
   \<and> str_contains ''COUNT(*) AS count''
        (generate_sql_from_question remdups ''How many billing tickets?'' ''id'')
   \<and> \<not> str_contains ''LIMIT''
        (generate_sql_from_question remdups ''How many billing tickets?'' ''id'')"
proof -
  have q: "str_contains ''how many'' (lower ''How many billing tickets?'')"
    by code_simp
  from set_listing_remdups q how_many_sql_counts_without_limit[OF set_listing_remdups q, of "''id''"]
  show ?thesis
    by (intro conjI) blast+
qed

section \<open>The explanation of a statement with one category condition\<close>

text \<open>The select clause has no equals sign: the cleaner lets none through.\<close>

lemma lower_char_eq_sign: "lower_char c = CHR ''='' \<Longrightarrow> c = CHR ''=''"
proof -
  assume "lower_char c = CHR ''=''"
  then have "(of_char (lower_char c) :: nat) = of_char (CHR ''='')"
    by simp
  then have "(of_char c :: nat) = of_char (CHR ''='')"
    by (simp add: lower_char_code_point is_upper_char_def Let_def split: if_splits)
  then show ?thesis
    by (simp only: of_char_eq_iff)
qed

lemma lower_keeps_eq_sign: "CHR ''='' \<notin> set s \<Longrightarrow> CHR ''='' \<notin> set (lower s)"
proof (induction s)
  case Nil
  then show ?case by (simp add: lower_def)
next
  case (Cons c s)
  from Cons.prems have "c \<noteq> CHR ''=''" and rest: "CHR ''='' \<notin> set s"
    by auto
  then have "lower_char c \<noteq> CHR ''=''"
    using lower_char_eq_sign by blast
  moreover have "CHR ''='' \<notin> set (lower s)"
    using rest by (rule Cons.IH)
  ultimately show ?case
    by (simp add: lower_Cons not_sym)
qed

lemma set_join: "set (join sep xs) \<subseteq> set sep \<union> \<Union> (set ` set xs)"
  by (induction sep xs rule: join.induct) auto

lemma column_char_not_eq_sign: "is_column_char c \<Longrightarrow> c \<noteq> CHR ''=''"
  by (auto simp: is_column_char_def is_ascii_letter_def is_ascii_digit_def Let_def)

lemma column_part_no_eq_sign:
  assumes "match_column_part p"
  shows "CHR ''='' \<notin> set p"
proof (cases "p \<noteq> [] \<and> last p = CHR 0x0A")
  case True
  with assms have "list_all is_column_char (butlast p)"
    by (simp add: match_column_part_def Let_def)
  then have "CHR ''='' \<notin> set (butlast p)"
    using column_char_not_eq_sign by (auto simp: list_all_iff)
  moreover from True have "butlast p @ [CHR 0x0A] = p"
    by (metis append_butlast_last_id)
  then have "set p = set (butlast p @ [CHR 0x0A])"
    by (rule arg_cong[OF sym])
  then have "set p = insert (CHR 0x0A) (set (butlast p))"
    by simp
  ultimately show ?thesis
    by simp
next
  case False
  with assms have "list_all is_column_char p"
    by (auto simp add: match_column_part_def Let_def)
  then show ?thesis
    using column_char_not_eq_sign by (auto simp: list_all_iff)
qed

lemma clean_no_eq_sign: "CHR ''='' \<notin> set (clean_columns_expression raw)"
proof -
  define parts where "parts = map strip (split_on CHR '','' (lower (strip raw)))"
  have "CHR ''='' \<notin> set (join '', '' parts)" if "list_all match_column_part parts"
  proof -
    from that have "\<forall>p \<in> set parts. CHR ''='' \<notin> set p"
      by (simp add: list_all_iff column_part_no_eq_sign)
    then show ?thesis
      using set_join[of "'', ''" parts] by auto
  qed
  then show ?thesis
    by (auto simp add: clean_columns_expression_def Let_def parts_def default_columns_def)
qed

text \<open>An occurrence of a pattern with an equals sign, in a text with a single equals
  sign, is anchored there.\<close>

lemma sublist_from_head:
  "c0 \<notin> set X \<Longrightarrow> sublist (c0 # w) (X @ B) \<Longrightarrow> sublist (c0 # w) B"
proof (induction X)
  case Nil
  then show ?case by simp
next
  case (Cons x X)
  from Cons.prems(1) have "x \<noteq> c0" and X: "c0 \<notin> set X"
    by auto
  from Cons.prems(2) have "prefix (c0 # w) (x # X @ B) \<or> sublist (c0 # w) (X @ B)"
    by (simp only: append_Cons sublist_Cons_right)
  moreover have "\<not> prefix (c0 # w) (x # X @ B)"
    using \<open>x \<noteq> c0\<close> by auto
  ultimately have "sublist (c0 # w) (X @ B)"
    by blast
  with X show ?case
    by (rule Cons.IH)
qed

lemma anchored_occurrence:
  assumes "c0 \<notin> set Y" and "c0 \<notin> set R"
    and "sublist (pre @ c0 # w) (Y @ c0 # R)"
  shows "prefix w R"
proof -
  have "sublist (c0 # w) (pre @ c0 # w)"
    by (rule sublist_append_leftI)
  then have "sublist (c0 # w) (Y @ c0 # R)"
    using assms(3) by (rule sublist_order.order_trans)
  then have "sublist (c0 # w) (c0 # R)"
    by (rule sublist_from_head[OF assms(1)])
  then have "prefix (c0 # w) (c0 # R) \<or> sublist (c0 # w) R"
    by (simp only: sublist_Cons_right)
  moreover have "\<not> sublist (c0 # w) R"
  proof
    assume "sublist (c0 # w) R"
    then have "set (c0 # w) \<subseteq> set R"
      by (rule set_mono_sublist)
    with assms(2) show False
      by simp
  qed
  ultimately show ?thesis
    by simp
qed

lemma no_anchored_occurrence:
  assumes "CHR ''='' \<notin> set Y" and "CHR ''='' \<notin> set R" and "\<not> prefix w R"
  shows "\<not> str_contains (pre @ CHR ''='' # w) (Y @ CHR ''='' # R)"
  using assms anchored_occurrence[of "CHR ''=''" Y R pre w]
  unfolding str_contains_sublist by blast

lemma generate_sql_single:
  assumes "build_conditions_from_question li question = [c]"
  shows "\<exists>sel lim. generate_sql_from_question li question raw
            = sel @ '' FROM tickets WHERE '' @ c @ lim @ '';''
          \<and> (sel = ''SELECT COUNT(*) AS count'' \<or> sel = ''SELECT '' @ clean_columns_expression raw)
          \<and> (lim = [] \<or> lim = '' LIMIT 50'')"
proof -
  define is_count where "is_count =
    (str_contains ''how many'' (lower question) \<or> str_contains ''count'' (lower question)
     \<or> str_contains ''count('' (lower (clean_columns_expression raw)))"
  define sel where "sel = (if is_count then ''SELECT COUNT(*) AS count''
    else ''SELECT '' @ clean_columns_expression raw)"
  define lim where "lim = (if is_count then [] else '' LIMIT 50'')"
  have "generate_sql_from_question li question raw
      = sel @ '' FROM tickets WHERE '' @ c @ lim @ '';''"
    unfolding generate_sql_from_question_def Let_def assms is_count_def[symmetric]
    by (simp add: sel_def lim_def)
  moreover have "sel = ''SELECT COUNT(*) AS count''
      \<or> sel = ''SELECT '' @ clean_columns_expression raw"
    by (simp add: sel_def)
  moreover have "lim = [] \<or> lim = '' LIMIT 50''"
    by (simp add: lim_def)
  ultimately show ?thesis
    by (intro exI conjI)
qed

lemma flags_off:
  assumes "CHR ''='' \<notin> set Y" and "CHR ''='' \<notin> set R"
    and "list_all (\<lambda>p. CHR ''='' \<in> set p
            \<and> \<not> prefix (tl (dropWhile (\<lambda>x. x \<noteq> CHR ''='') p)) R) ps"
  shows "list_all (\<lambda>p. \<not> str_contains p (Y @ CHR ''='' # R)) ps"
proof -
  have "\<not> str_contains p (Y @ CHR ''='' # R)"
    if "CHR ''='' \<in> set p" and "\<not> prefix (tl (dropWhile (\<lambda>x. x \<noteq> CHR ''='') p)) R" for p
  proof -
    define pre where "pre = takeWhile (\<lambda>x. x \<noteq> CHR ''='') p"
    define w where "w = tl (dropWhile (\<lambda>x. x \<noteq> CHR ''='') p)"
    from that(1) have "dropWhile (\<lambda>x. x \<noteq> CHR ''='') p \<noteq> []"
      by (simp add: dropWhile_eq_Nil_conv)
    moreover from this have "hd (dropWhile (\<lambda>x. x \<noteq> CHR ''='') p) = CHR ''=''"
      using hd_dropWhile[of "\<lambda>x. x \<noteq> CHR ''=''" p] by simp
    ultimately have "dropWhile (\<lambda>x. x \<noteq> CHR ''='') p = CHR ''='' # w"
      unfolding w_def by (metis list.collapse)
    then have "pre @ CHR ''='' # w = p"
      unfolding pre_def by (metis takeWhile_dropWhile_id)
    moreover have "\<not> str_contains (pre @ CHR ''='' # w) (Y @ CHR ''='' # R)"
      using assms(1,2) that(2) unfolding w_def by (rule no_anchored_occurrence)
    ultimately show ?thesis
      by simp
  qed
  with assms(3) show ?thesis
    by (simp add: list_all_iff)
qed

lemma single_category_flags:
  assumes X: "CHR ''='' \<notin> set X" and L: "CHR ''='' \<notin> set lim"
    and c: "c \<in> set category_fragments"
    and S: "S = X @ '' from tickets where '' @ lower c @ lim @ '';''"
  shows "\<not> str_contains (''priority = 'high'' @ apos) S"
    and "\<not> str_contains (''priority = 'medium'' @ apos) S"
    and "\<not> str_contains (''priority = 'low'' @ apos) S"
    and "str_contains (''category = 'technical'' @ apos) S
          = (c = ''category = 'Technical'' @ apos)"
    and "str_contains (''category = 'billing'' @ apos) S
          = (c = ''category = 'Billing'' @ apos)"
    and "str_contains (''category = 'general'' @ apos) S
          = (c = ''category = 'General'' @ apos)"
    and "\<not> str_contains (''status = 'open'' @ apos) S"
    and "\<not> str_contains (''status = 'closed'' @ apos) S"
proof -
  define Y where "Y = X @ '' from tickets where category ''"
  have Y: "CHR ''='' \<notin> set Y"
    using X by (simp add: Y_def)
  have "sublist (lower c) ((X @ '' from tickets where '') @ lower c @ (lim @ '';''))"
    by (rule sublist_appendI)
  then have on: "str_contains (lower c) S"
    unfolding S str_contains_sublist by (simp only: append_assoc)
  from c consider
      (T) "c = ''category = 'Technical'' @ apos"
    | (B) "c = ''category = 'Billing'' @ apos"
    | (G) "c = ''category = 'General'' @ apos"
    by (auto simp: category_fragments_def)
  then have "\<not> str_contains (''priority = 'high'' @ apos) S
    \<and> \<not> str_contains (''priority = 'medium'' @ apos) S
    \<and> \<not> str_contains (''priority = 'low'' @ apos) S
    \<and> str_contains (''category = 'technical'' @ apos) S = (c = ''category = 'Technical'' @ apos)
    \<and> str_contains (''category = 'billing'' @ apos) S = (c = ''category = 'Billing'' @ apos)
    \<and> str_contains (''category = 'general'' @ apos) S = (c = ''category = 'General'' @ apos)
    \<and> \<not> str_contains (''status = 'open'' @ apos) S
    \<and> \<not> str_contains (''status = 'closed'' @ apos) S"
  proof cases
    case T
    define R where "R = '' 'technical'' @ apos @ lim @ '';''"
    have R: "CHR ''='' \<notin> set R"
      using L by (simp add: R_def)
    have SR: "S = Y @ CHR ''='' # R"
      by (simp add: S Y_def R_def T lower_def char_eval)
    have "list_all (\<lambda>p. \<not> str_contains p (Y @ CHR ''='' # R))
       [''priority = 'high'' @ apos, ''priority = 'medium'' @ apos, ''priority = 'low'' @ apos,
        ''category = 'billing'' @ apos, ''category = 'general'' @ apos,
        ''status = 'open'' @ apos, ''status = 'closed'' @ apos]"
      by (rule flags_off[OF Y R]) (simp add: R_def)
    with on show ?thesis
      by (simp add: SR[symmetric] T lower_def char_eval)
  next
    case B
    define R where "R = '' 'billing'' @ apos @ lim @ '';''"
    have R: "CHR ''='' \<notin> set R"
      using L by (simp add: R_def)
    have SR: "S = Y @ CHR ''='' # R"
      by (simp add: S Y_def R_def B lower_def char_eval)
    have "list_all (\<lambda>p. \<not> str_contains p (Y @ CHR ''='' # R))
       [''priority = 'high'' @ apos, ''priority = 'medium'' @ apos, ''priority = 'low'' @ apos,
        ''category = 'technical'' @ apos, ''category = 'general'' @ apos,
        ''status = 'open'' @ apos, ''status = 'closed'' @ apos]"
      by (rule flags_off[OF Y R]) (simp add: R_def)
    with on show ?thesis
      by (simp add: SR[symmetric] B lower_def char_eval)
  next
    case G
    define R where "R = '' 'general'' @ apos @ lim @ '';''"
    have R: "CHR ''='' \<notin> set R"
      using L by (simp add: R_def)
    have SR: "S = Y @ CHR ''='' # R"
      by (simp add: S Y_def R_def G lower_def char_eval)
    have "list_all (\<lambda>p. \<not> str_contains p (Y @ CHR ''='' # R))
       [''priority = 'high'' @ apos, ''priority = 'medium'' @ apos, ''priority = 'low'' @ apos,
        ''category = 'technical'' @ apos, ''category = 'billing'' @ apos,
        ''status = 'open'' @ apos, ''status = 'closed'' @ apos]"
      by (rule flags_off[OF Y R]) (simp add: R_def)
    with on show ?thesis
      by (simp add: SR[symmetric] G lower_def char_eval)
  qed
  then show "\<not> str_contains (''priority = 'high'' @ apos) S"
    and "\<not> str_contains (''priority = 'medium'' @ apos) S"
    and "\<not> str_contains (''priority = 'low'' @ apos) S"
    and "str_contains (''category = 'technical'' @ apos) S
          = (c = ''category = 'Technical'' @ apos)"
    and "str_contains (''category = 'billing'' @ apos) S
          = (c = ''category = 'Billing'' @ apos)"
    and "str_contains (''category = 'general'' @ apos) S
          = (c = ''category = 'General'' @ apos)"
    and "\<not> str_contains (''status = 'open'' @ apos) S"
    and "\<not> str_contains (''status = 'closed'' @ apos) S"
    by blast+
qed

lemma one_category_phrase_table:
  "list_all (\<lambda>intent. list_all (\<lambda>ph. list_all (\<lambda>b.
       filter (\<lambda>p. str_contains p
                 (capitalize (join '' ''
                    (intent # ph # opt_item b ''and limits the results to 50 records'')) @ ''.''))
         category_phrases = [ph])
     [True, False]) category_phrases)
   [''This query counts the number of tickets'', ''This query retrieves ticket details'']"
  by code_simp

lemma lower_sql_literals:
  "lower '' FROM tickets WHERE '' = '' from tickets where ''" "lower '';'' = '';''"
  by code_simp+

text \<open>
  Claim C8. When the condition builder yields exactly one condition and it is one of the
  three category fragments, the explanation of the generated SQL contains exactly one of
  the three category phrases, the one that belongs to that fragment; this holds for every
  answer of the suggester, with or without count intent.
\<close>

theorem single_category_explained:
  assumes "build_conditions_from_question li question = [c]"
    and "c \<in> set category_fragments"
  shows "filter (\<lambda>p. str_contains p
            (explain_sql (generate_sql_from_question li question raw))) category_phrases
         = [category_phrase c]"
proof -
  let ?sql = "generate_sql_from_question li question raw"
  obtain sel lim where sql: "?sql = sel @ '' FROM tickets WHERE '' @ c @ lim @ '';''"
    and sel: "sel = ''SELECT COUNT(*) AS count'' \<or> sel = ''SELECT '' @ clean_columns_expression raw"
    and lim: "lim = [] \<or> lim = '' LIMIT 50''"
    using generate_sql_single[OF assms(1)] by blast
  from sel have "CHR ''='' \<notin> set sel"
    using clean_no_eq_sign[of raw] by auto
  then have X: "CHR ''='' \<notin> set (lower sel)"
    by (rule lower_keeps_eq_sign)
  from lim have "CHR ''='' \<notin> set lim"
    by auto
  then have L: "CHR ''='' \<notin> set (lower lim)"
    by (rule lower_keeps_eq_sign)
  have S: "lower ?sql = lower sel @ '' from tickets where '' @ lower c @ lower lim @ '';''"
    by (simp only: sql lower_append lower_sql_literals)
  note flags = single_category_flags[OF X L assms(2) S]
  define intent where "intent = (if str_contains ''count(*)'' (lower ?sql)
         then ''This query counts the number of tickets''
         else ''This query retrieves ticket details'')"
  define lf where "lf = str_contains ''limit'' (lower ?sql)"
  from assms(2) have "c = ''category = 'Technical'' @ apos \<or> c = ''category = 'Billing'' @ apos
      \<or> c = ''category = 'General'' @ apos"
    by (simp add: category_fragments_def)
  then have e: "explain_sql ?sql = capitalize (join '' ''
      (intent # category_phrase c # opt_item lf ''and limits the results to 50 records'')) @ ''.''"
    using flags unfolding explain_sql_phrases intent_def[symmetric] lf_def[symmetric]
    by (auto simp add: opt_item_def category_phrase_def)
  have "intent \<in> set [''This query counts the number of tickets'',
      ''This query retrieves ticket details'']"
    by (simp add: intent_def)
  moreover have "category_phrase c \<in> set category_phrases"
    by (simp add: category_phrase_def category_phrases_def)
  moreover have "lf \<in> set [True, False]"
    by simp
  ultimately show ?thesis
    using one_category_phrase_table unfolding e list_all_iff by blast
qed

theorem single_category_explained_witness:
  "build_conditions_from_question remdups ''billing'' = [''category = 'Billing'' @ apos]
   \<and> ''category = 'Billing'' @ apos \<in> set category_fragments
   \<and> filter (\<lambda>p. str_contains p
            (explain_sql (generate_sql_from_question remdups ''billing'' ''id, text'')))
        category_phrases = [''related to billing issues'']"
proof -
  have a: "build_conditions_from_question remdups ''billing'' = [''category = 'Billing'' @ apos]"
    by code_simp
  have b: "''category = 'Billing'' @ apos \<in> set category_fragments"
    by code_simp
  have c: "category_phrase (''category = 'Billing'' @ apos) = ''related to billing issues''"
    by code_simp
  from single_category_explained[OF a b, of "''id, text''"] a b show ?thesis
    unfolding c by (intro conjI)
qed

section \<open>Appending a keyword to a question\<close>

























lemma words_printer:
  "question_words ''printer'' = [''printer'']"
  "question_words ''printer resolved'' = [''printer'', ''resolved'']"
  by code_simp+

lemma printer_resolved_any_listing:
  assumes "set_listing li"
  shows "build_conditions_from_question li ''printer'' = [''(LOWER(text) LIKE '%printer%')'']"
    and "build_conditions_from_question li ''printer resolved'' =
           [''status = 'Closed'' @ apos,
            ''(LOWER(text) LIKE '%printer%' OR LOWER(text) LIKE '%resolved%')'']
       \<or> build_conditions_from_question li ''printer resolved'' =
           [''status = 'Closed'' @ apos,
            ''(LOWER(text) LIKE '%resolved%' OR LOWER(text) LIKE '%printer%')'']"
proof -
  have "distinct (li [''printer''])" and "set (li [''printer'']) = {''printer''}"
    using assms by (simp_all add: set_listing_def)
  then have one: "li [''printer''] = [''printer'']"
    by (rule listing_one)
  have l1: "lower ''printer'' = ''printer''"
    by code_simp
  show "build_conditions_from_question li ''printer'' = [''(LOWER(text) LIKE '%printer%')'']"
    by (simp add: build_conditions_from_question_def extract_text_keywords_def Let_def
          words_printer one l1)
  have "distinct (li [''printer'', ''resolved''])"
    and "set (li [''printer'', ''resolved'']) = {''printer'', ''resolved''}"
    using assms by (simp_all add: set_listing_def)
  then have two: "li [''printer'', ''resolved''] = [''printer'', ''resolved'']
      \<or> li [''printer'', ''resolved''] = [''resolved'', ''printer'']"
    by (rule listing_two) simp
  have l2: "lower ''printer resolved'' = ''printer resolved''"
    by code_simp
  from two show "build_conditions_from_question li ''printer resolved'' =
           [''status = 'Closed'' @ apos,
            ''(LOWER(text) LIKE '%printer%' OR LOWER(text) LIKE '%resolved%')'']
       \<or> build_conditions_from_question li ''printer resolved'' =
           [''status = 'Closed'' @ apos,
            ''(LOWER(text) LIKE '%resolved%' OR LOWER(text) LIKE '%printer%')'']"
    by (auto simp add: build_conditions_from_question_def extract_text_keywords_def Let_def
          words_printer l2)
qed

end
